theory Spec2Isabelle
  imports Complex_Main "HOL-Library.Word" "HOL-Library.Log_Nat"
begin

section \<open>Colour analysis for colour-blind users: the embedding of color\_analyzer.py\<close>

text \<open>
  The module classifies the pixels of a region of interest (ROI) into named HSV bands,
  ranks the dominant colours, flags colours that are hard to see for a given kind of
  colour blindness and reads the state of a traffic light.

  Modelling decisions.
  \<^item> A pixel is three \<open>uint8\<close> channels, an \<open>8 word\<close> each. An image is its shape
    \<open>(rows, cols, 3)\<close> with the pixel at every position; only positions inside the
    shape are ever read.
  \<^item> \<open>cv2.cvtColor(roi, cv2.COLOR_BGR2HSV)\<close> is a library primitive. It converts pixel
    by pixel, so the model takes the per-pixel conversion as the parameter \<open>cvt\<close>; like
    the library it fails on an image without pixels.
  \<^item> Python's \<open>float\<close> is the IEEE 754 binary64 format. A finite double is a rational
    number, so the model keeps \<open>rat\<close> as the carrier and rounds the exact result of
    every floating-point operation to the nearest double (\<open>to_double\<close>), a tie going to
    the even significand.
  \<^item> A \<open>dict\<close> is an association list in insertion order: the order is observable, in
    the stable sort of \<open>get_dominant_colors\<close> and in the warning text.
  \<^item> Exceptions are values: every function that can raise returns \<open>py_error + 'a\<close>.
\<close>

subsection \<open>Types\<close>

datatype ColorBlindnessType =
  NORMAL | PROTANOPIA | PROTANOMALY | DEUTERANOPIA | DEUTERANOMALY
  | TRITANOPIA | TRITANOMALY | ACHROMATOPSIA

datatype py_error = CvError | ZeroDivisionError

type_synonym pixel = "8 word \<times> 8 word \<times> 8 word"

type_synonym hsv_bound = "nat \<times> nat \<times> nat"

type_synonym color_dict = "(string \<times> rat) list"

record image =
  rows :: nat
  cols :: nat
  pixel_at :: "nat \<Rightarrow> nat \<Rightarrow> pixel"

record region_analysis =
  dominant_colors :: "string list"
  is_problematic :: bool
  warning :: "string option"
  color_breakdown :: "color_dict option"

record traffic_light =
  state :: string
  confidence :: rat

subsection \<open>The tables\<close>

definition COLOR_RANGES :: "(string \<times> hsv_bound \<times> hsv_bound) list" where
  "COLOR_RANGES =
   [(''red_low'', (0, 100, 100), (10, 255, 255)),
    (''red_high'', (160, 100, 100), (180, 255, 255)),
    (''dark_red'', (0, 100, 50), (10, 255, 100)),
    (''dark_red_high'', (160, 100, 50), (180, 255, 100)),
    (''orange'', (10, 100, 100), (20, 255, 255)),
    (''rust_orange'', (10, 80, 80), (20, 255, 150)),
    (''brown'', (10, 50, 50), (25, 200, 150)),
    (''dark_brown'', (10, 50, 30), (25, 200, 80)),
    (''tan'', (15, 30, 150), (30, 100, 220)),
    (''yellow'', (25, 100, 100), (35, 255, 255)),
    (''gold'', (20, 80, 100), (30, 255, 200)),
    (''pale_yellow'', (25, 40, 180), (35, 100, 255)),
    (''green'', (35, 100, 100), (85, 255, 255)),
    (''lime'', (35, 100, 150), (55, 255, 255)),
    (''dark_green'', (35, 100, 30), (85, 255, 100)),
    (''olive'', (30, 30, 50), (50, 150, 150)),
    (''teal'', (80, 80, 80), (95, 255, 200)),
    (''cyan'', (85, 100, 100), (100, 255, 255)),
    (''blue'', (100, 100, 100), (130, 255, 255)),
    (''light_blue'', (100, 50, 150), (115, 150, 255)),
    (''dark_blue'', (100, 100, 50), (130, 255, 120)),
    (''purple'', (130, 100, 100), (145, 255, 255)),
    (''violet'', (145, 80, 80), (160, 255, 255)),
    (''lavender'', (130, 30, 150), (155, 100, 255)),
    (''magenta'', (150, 100, 100), (165, 255, 255)),
    (''plum'', (140, 50, 50), (160, 150, 150)),
    (''pink'', (160, 50, 150), (175, 200, 255)),
    (''hot_pink'', (165, 100, 150), (175, 255, 255)),
    (''white'', (0, 0, 200), (180, 30, 255)),
    (''gray'', (0, 0, 80), (180, 30, 200)),
    (''black'', (0, 0, 0), (180, 255, 50))]"

text \<open>The comment headers of \<open>COLOR_RANGES\<close>, each with the keys listed under it.\<close>

definition band_families :: "(string \<times> string list) list" where
  "band_families =
   [(''Reds'', [''red_low'', ''red_high'', ''dark_red'', ''dark_red_high'']),
    (''Oranges and browns'', [''orange'', ''rust_orange'', ''brown'', ''dark_brown'', ''tan'']),
    (''Yellows'', [''yellow'', ''gold'', ''pale_yellow'']),
    (''Greens'', [''green'', ''lime'', ''dark_green'', ''olive'', ''teal'']),
    (''Blues and cyans'', [''cyan'', ''blue'', ''light_blue'', ''dark_blue'']),
    (''Purples and violets'', [''purple'', ''violet'', ''lavender'', ''magenta'', ''plum'']),
    (''Pinks'', [''pink'', ''hot_pink'']),
    (''Neutrals'', [''white'', ''gray'', ''black''])]"

fun PROBLEMATIC_COLORS :: "ColorBlindnessType \<Rightarrow> string list" where
  "PROBLEMATIC_COLORS NORMAL = []"
| "PROBLEMATIC_COLORS PROTANOPIA =
     [''red_low'', ''red_high'', ''dark_red'', ''dark_red_high'',
      ''orange'', ''rust_orange'', ''brown'', ''dark_brown'',
      ''green'', ''dark_green'', ''olive'', ''lime'']"
| "PROBLEMATIC_COLORS PROTANOMALY =
     [''red_low'', ''red_high'', ''dark_red'', ''dark_red_high'',
      ''orange'', ''rust_orange'', ''brown'']"
| "PROBLEMATIC_COLORS DEUTERANOPIA =
     [''red_low'', ''red_high'', ''dark_red'', ''dark_red_high'',
      ''green'', ''dark_green'', ''lime'', ''olive'',
      ''yellow'', ''gold'', ''brown'']"
| "PROBLEMATIC_COLORS DEUTERANOMALY =
     [''green'', ''dark_green'', ''lime'', ''olive'', ''yellow'', ''gold'']"
| "PROBLEMATIC_COLORS TRITANOPIA =
     [''blue'', ''light_blue'', ''dark_blue'',
      ''yellow'', ''gold'', ''pale_yellow'',
      ''cyan'', ''teal'',
      ''violet'', ''purple'']"
| "PROBLEMATIC_COLORS TRITANOMALY = [''blue'', ''light_blue'', ''yellow'', ''gold'']"
| "PROBLEMATIC_COLORS ACHROMATOPSIA = map fst COLOR_RANGES"

definition COLOR_DISPLAY_NAMES :: "(string \<times> string) list" where
  "COLOR_DISPLAY_NAMES =
   [(''red_low'', ''red''),
    (''red_high'', ''red''),
    (''dark_red'', ''dark red (maroon)''),
    (''dark_red_high'', ''dark red (burgundy)''),
    (''orange'', ''orange''),
    (''rust_orange'', ''rust orange''),
    (''brown'', ''brown''),
    (''dark_brown'', ''dark brown (chocolate)''),
    (''tan'', ''tan (beige)''),
    (''yellow'', ''yellow''),
    (''gold'', ''gold (amber)''),
    (''pale_yellow'', ''pale yellow (cream)''),
    (''green'', ''green''),
    (''lime'', ''lime green''),
    (''dark_green'', ''dark green (forest)''),
    (''olive'', ''olive (khaki)''),
    (''teal'', ''teal''),
    (''cyan'', ''cyan''),
    (''blue'', ''blue''),
    (''light_blue'', ''light blue (sky)''),
    (''dark_blue'', ''dark blue (navy)''),
    (''purple'', ''purple''),
    (''violet'', ''violet''),
    (''lavender'', ''lavender''),
    (''magenta'', ''magenta (fuchsia)''),
    (''plum'', ''plum''),
    (''pink'', ''pink''),
    (''hot_pink'', ''hot pink''),
    (''white'', ''white''),
    (''gray'', ''gray''),
    (''black'', ''black'')]"

subsection \<open>Python and library primitives\<close>

text \<open>\<open>d.get(k, default)\<close> and \<open>d[k] = v\<close> on a dict kept in insertion order.\<close>

fun dict_get :: "('k \<times> 'v) list \<Rightarrow> 'k \<Rightarrow> 'v \<Rightarrow> 'v" where
  "dict_get [] k dflt = dflt"
| "dict_get ((k', v) # d) k dflt = (if k' = k then v else dict_get d k dflt)"

fun dict_set :: "('k \<times> 'v) list \<Rightarrow> 'k \<Rightarrow> 'v \<Rightarrow> ('k \<times> 'v) list" where
  "dict_set [] k v = [(k, v)]"
| "dict_set ((k', v') # d) k v = (if k' = k then (k, v) # d else (k', v') # dict_set d k v)"

text \<open>Rounding to the nearest integer, a tie going to the even one.\<close>

definition round_half_even :: "rat \<Rightarrow> int" where
  "round_half_even x =
     (let f = \<lfloor>x\<rfloor>; d = x - of_int f
      in if d < 1 / 2 then f else if 1 / 2 < d then f + 1 else if even f then f else f + 1)"

text \<open>The binary exponent of a positive number: the \<open>e\<close> with
  \<open>2 ^ e \<le> x < 2 ^ (e + 1)\<close>.\<close>

definition float_exponent :: "rat \<Rightarrow> int" where
  "float_exponent x =
     (if 1 \<le> x then int (floorlog 2 (nat \<lfloor>x\<rfloor>)) - 1
      else - int (floorlog 2 (nat (\<lceil>1 / x\<rceil> - 1))))"

text \<open>The double nearest to a rational: the significand is an integer of 53 bits, the
  multiple of \<open>2 ^ (e - 52)\<close> nearest to the number. The exponent is not bounded here;
  the numbers of this module (counts below \<open>2 ^ 63\<close>, percentages, confidences) are far
  from the overflow and the subnormal range of the format.\<close>

definition to_double :: "rat \<Rightarrow> rat" where
  "to_double x =
     (if x = 0 then 0
      else (let q = 2 powi (float_exponent \<bar>x\<bar> - 52)
            in sgn x * (of_int (round_half_even (\<bar>x\<bar> / q)) * q)))"

text \<open>\<open>+\<close>, \<open>*\<close> and \<open>/\<close> on floats: the exact result, rounded once.\<close>

definition float_add :: "rat \<Rightarrow> rat \<Rightarrow> rat" where
  "float_add a b = to_double (a + b)"

definition float_mul :: "rat \<Rightarrow> rat \<Rightarrow> rat" where
  "float_mul a b = to_double (a * b)"

definition float_div :: "rat \<Rightarrow> rat \<Rightarrow> rat" where
  "float_div a b = to_double (a / b)"

text \<open>\<open>a / b\<close> on two ints: true division, correctly rounded, raising on a zero
  divisor.\<close>

definition py_truediv :: "nat \<Rightarrow> nat \<Rightarrow> py_error + rat" where
  "py_truediv a b =
     (if b = 0 then Inl ZeroDivisionError else Inr (to_double (of_nat a / of_nat b)))"

text \<open>\<open>round(x, 1)\<close> on a float: the exact value of \<open>x\<close> is rounded to one decimal
  place, a tie going to the even digit, and the double nearest to that decimal is
  returned.\<close>

definition py_round1 :: "rat \<Rightarrow> rat" where
  "py_round1 x = to_double (of_int (round_half_even (x * 10)) / 10)"

text \<open>\<open>sorted(xs, key=key, reverse=True)\<close>: descending by key; the sort is stable, also
  when reversed, so elements with equal keys keep their order.\<close>

definition sorted_reverse :: "('a \<Rightarrow> rat) \<Rightarrow> 'a list \<Rightarrow> 'a list" where
  "sorted_reverse key xs = sort_key (\<lambda>x. - key x) xs"

text \<open>\<open>sep.join(xs)\<close>.\<close>

fun str_join :: "string \<Rightarrow> string list \<Rightarrow> string" where
  "str_join sep [] = []"
| "str_join sep [x] = x"
| "str_join sep (x # y # ys) = x @ sep @ str_join sep (y # ys)"

text \<open>\<open>roi.size\<close> of an array of shape \<open>(rows, cols, 3)\<close>, and its pixels in row-major
  order.\<close>

definition roi_size :: "image \<Rightarrow> nat" where
  "roi_size img = rows img * cols img * 3"

definition pixels_of :: "image \<Rightarrow> pixel list" where
  "pixels_of img =
     concat (map (\<lambda>i. map (\<lambda>j. pixel_at img i j) [0..<cols img]) [0..<rows img])"

text \<open>\<open>cv2.cvtColor\<close>: the shape is kept and every pixel converted; an empty source is
  an error of the library.\<close>

definition cvtColor :: "(pixel \<Rightarrow> pixel) \<Rightarrow> image \<Rightarrow> py_error + image" where
  "cvtColor cvt img =
     (if roi_size img = 0 then Inl CvError
      else Inr (img\<lparr>pixel_at := (\<lambda>i j. cvt (pixel_at img i j))\<rparr>))"

text \<open>\<open>np.array(bound, dtype=np.uint8)\<close>.\<close>

definition np_uint8 :: "hsv_bound \<Rightarrow> pixel" where
  "np_uint8 b = (case b of (h, s, v) \<Rightarrow> (of_nat h, of_nat s, of_nat v))"

text \<open>\<open>cv2.inRange\<close>: 255 where all three channels lie within the inclusive bounds,
  0 elsewhere; \<open>cv2.countNonZero\<close> counts the entries that are not 0.\<close>

definition in_bounds :: "pixel \<Rightarrow> pixel \<Rightarrow> pixel \<Rightarrow> bool" where
  "in_bounds lower upper p =
     (case (lower, upper, p) of ((h0, s0, v0), (h1, s1, v1), (h, s, v)) \<Rightarrow>
        h0 \<le> h \<and> h \<le> h1 \<and> s0 \<le> s \<and> s \<le> s1 \<and> v0 \<le> v \<and> v \<le> v1)"

definition inRange :: "image \<Rightarrow> pixel \<Rightarrow> pixel \<Rightarrow> 8 word list" where
  "inRange hsv lower upper =
     map (\<lambda>p. if in_bounds lower upper p then 255 else 0) (pixels_of hsv)"

definition countNonZero :: "8 word list \<Rightarrow> nat" where
  "countNonZero msk = length (filter (\<lambda>m. m \<noteq> 0) msk)"

subsection \<open>ColorAnalyzer\<close>

text \<open>The loop of \<open>detect_colors\<close> over \<open>COLOR_RANGES.items()\<close>; \<open>acc\<close> is
  \<open>color_percentages\<close>.\<close>

fun detect_loop ::
  "image \<Rightarrow> nat \<Rightarrow> (string \<times> hsv_bound \<times> hsv_bound) list \<Rightarrow> color_dict
     \<Rightarrow> py_error + color_dict" where
  "detect_loop hsv total_pixels [] acc = Inr acc"
| "detect_loop hsv total_pixels ((color_name, lower, upper) # rest) acc =
     (let msk = inRange hsv (np_uint8 lower) (np_uint8 upper);
          color_pixels = countNonZero msk
      in case py_truediv color_pixels total_pixels of
           Inl e \<Rightarrow> Inl e
         | Inr q \<Rightarrow>
             (let percentage = float_mul q 100
              in detect_loop hsv total_pixels rest
                   (if percentage > 5 then dict_set acc color_name (py_round1 percentage)
                    else acc)))"

definition detect_colors :: "(pixel \<Rightarrow> pixel) \<Rightarrow> image \<Rightarrow> py_error + color_dict" where
  "detect_colors cvt roi =
     (if roi_size roi = 0 then Inr []
      else case cvtColor cvt roi of
             Inl e \<Rightarrow> Inl e
           | Inr hsv \<Rightarrow> detect_loop hsv (rows roi * cols roi) COLOR_RANGES [])"

text \<open>The percentage that the loop of \<open>detect_colors\<close> computes for a band of
  the converted image.\<close>

definition band_percentage :: "image \<Rightarrow> hsv_bound \<Rightarrow> hsv_bound \<Rightarrow> rat" where
  "band_percentage hsv lower upper =
     float_mul
       (to_double (of_nat (countNonZero (inRange hsv (np_uint8 lower) (np_uint8 upper))) /
          of_nat (rows hsv * cols hsv)))
       100"

text \<open>The loop of \<open>get_dominant_colors\<close>: the test against \<open>top_n\<close> comes after the
  append, at the end of each round.\<close>

fun dominant_loop ::
  "int \<Rightarrow> (string \<times> rat) list \<Rightarrow> string set \<Rightarrow> string list \<Rightarrow> string list" where
  "dominant_loop top_n [] seen dominant = dominant"
| "dominant_loop top_n ((color_name, pct) # rest) seen dominant =
     (let display_name = dict_get COLOR_DISPLAY_NAMES color_name color_name;
          seen' = (if display_name \<notin> seen then insert display_name seen else seen);
          dominant' = (if display_name \<notin> seen then dominant @ [display_name] else dominant)
      in if int (length dominant') \<ge> top_n then dominant'
         else dominant_loop top_n rest seen' dominant')"

definition get_dominant_colors ::
  "(pixel \<Rightarrow> pixel) \<Rightarrow> image \<Rightarrow> int \<Rightarrow> py_error + string list" where
  "get_dominant_colors cvt roi top_n =
     (case detect_colors cvt roi of
        Inl e \<Rightarrow> Inl e
      | Inr color_percentages \<Rightarrow>
          Inr (dominant_loop top_n (sorted_reverse snd color_percentages) {} []))"

text \<open>The scan of \<open>is_problematic_for_user\<close> over \<open>detected_colors.items()\<close>.\<close>

fun problematic_loop ::
  "string list \<Rightarrow> (string \<times> rat) list \<Rightarrow> (string \<times> rat) list \<Rightarrow> (string \<times> rat) list" where
  "problematic_loop problematic [] found_problematic = found_problematic"
| "problematic_loop problematic ((color_name, percentage) # rest) found_problematic =
     problematic_loop problematic rest
       (if color_name \<in> set problematic \<and> percentage > 10
        then found_problematic @
               [(dict_get COLOR_DISPLAY_NAMES color_name color_name, percentage)]
        else found_problematic)"

definition is_problematic_for_user ::
  "color_dict \<Rightarrow> ColorBlindnessType \<Rightarrow> bool \<times> string option" where
  "is_problematic_for_user detected_colors colorblindness_type =
     (let problematic = PROBLEMATIC_COLORS colorblindness_type
      in if problematic = [] then (False, None)
         else (let found_problematic = problematic_loop problematic detected_colors []
               in if found_problematic \<noteq> []
                  then (True,
                        Some (''Contains '' @
                              str_join '', '' (map fst (take 2 found_problematic)) @
                              '' - may be difficult to see''))
                  else (False, None)))"

definition analyze_region ::
  "(pixel \<Rightarrow> pixel) \<Rightarrow> image \<Rightarrow> ColorBlindnessType \<Rightarrow> py_error + region_analysis" where
  "analyze_region cvt roi colorblindness_type =
     (if roi_size roi = 0
      then Inr \<lparr>dominant_colors = [], is_problematic = False, warning = None,
                color_breakdown = None\<rparr>
      else case detect_colors cvt roi of
             Inl e \<Rightarrow> Inl e
           | Inr detected_colors \<Rightarrow>
               (case get_dominant_colors cvt roi 3 of
                  Inl e \<Rightarrow> Inl e
                | Inr dominant \<Rightarrow>
                    (case is_problematic_for_user detected_colors colorblindness_type of
                       (problematic, warn) \<Rightarrow>
                         Inr \<lparr>dominant_colors = dominant, is_problematic = problematic,
                              warning = warn, color_breakdown = Some detected_colors\<rparr>)))"

definition traffic_state :: "color_dict \<Rightarrow> traffic_light" where
  "traffic_state colors =
     (let red_pct = float_add (dict_get colors ''red_low'' 0) (dict_get colors ''red_high'' 0);
          yellow_pct = dict_get colors ''yellow'' 0;
          green_pct = dict_get colors ''green'' 0
      in if red_pct > yellow_pct \<and> red_pct > green_pct \<and> red_pct > 10
         then \<lparr>state = ''red'', confidence = min (float_div red_pct 100) 1\<rparr>
         else if yellow_pct > red_pct \<and> yellow_pct > green_pct \<and> yellow_pct > 10
         then \<lparr>state = ''yellow'', confidence = min (float_div yellow_pct 100) 1\<rparr>
         else if green_pct > red_pct \<and> green_pct > yellow_pct \<and> green_pct > 10
         then \<lparr>state = ''green'', confidence = min (float_div green_pct 100) 1\<rparr>
         else \<lparr>state = ''unknown'', confidence = 0\<rparr>)"

definition analyze_traffic_light :: "(pixel \<Rightarrow> pixel) \<Rightarrow> image \<Rightarrow> py_error + traffic_light" where
  "analyze_traffic_light cvt roi =
     (if roi_size roi = 0 then Inr \<lparr>state = ''unknown'', confidence = 0\<rparr>
      else case detect_colors cvt roi of
             Inl e \<Rightarrow> Inl e
           | Inr colors \<Rightarrow> Inr (traffic_state colors))"

subsection \<open>The specification of the dominant colours\<close>

text \<open>The wording of the specification, for comparison with \<open>get_dominant_colors\<close>:
  sort the entries by percentage descending (stable), map each band to its display name,
  keep only the first occurrence of each display name, and stop at \<open>topN\<close> names.\<close>

fun first_occurrences :: "'a list \<Rightarrow> 'a list" where
  "first_occurrences [] = []"
| "first_occurrences (x # xs) = x # first_occurrences (filter (\<lambda>y. y \<noteq> x) xs)"

definition dominantColors_spec :: "color_dict \<Rightarrow> int \<Rightarrow> string list" where
  "dominantColors_spec detection topN =
     take (nat topN)
       (first_occurrences
          (map (\<lambda>(name, pct). dict_get COLOR_DISPLAY_NAMES name name)
             (sorted_reverse snd detection)))"

subsection \<open>Test inputs\<close>

text \<open>The conversion at the test inputs: the 8-bit \<open>COLOR_BGR2HSV\<close> of OpenCV in its
  fixed-point arithmetic (shift 12, hue range 180). The two tables hold the rounded
  quotients \<open>255 * 4096 / v\<close> and \<open>180 * 4096 / (6 * diff)\<close>; the shift to the right
  rounds towards minus infinity, and a negative hue is wrapped by 180.\<close>

definition sdiv_table :: "int \<Rightarrow> int" where
  "sdiv_table i = (if i = 0 then 0 else round_half_even (of_int (255 * 4096) / of_int i))"

definition hdiv_table180 :: "int \<Rightarrow> int" where
  "hdiv_table180 i =
     (if i = 0 then 0 else round_half_even (of_int (180 * 4096) / of_int (6 * i)))"

definition bgr2hsv :: "pixel \<Rightarrow> pixel" where
  "bgr2hsv p =
     (case p of (b8, g8, r8) \<Rightarrow>
        (let b = int (unat b8); g = int (unat g8); r = int (unat r8);
             v = max b (max g r);
             diff = v - min b (min g r);
             s = (diff * sdiv_table v + 2048) div 4096;
             h0 = (if v = r then g - b
                   else if v = g then b - r + 2 * diff
                   else r - g + 4 * diff);
             h1 = (h0 * hdiv_table180 diff + 2048) div 4096;
             h = (if h1 < 0 then h1 + 180 else h1)
         in (of_int h, of_int s, of_int v)))"

definition solid :: "nat \<Rightarrow> nat \<Rightarrow> pixel \<Rightarrow> image" where
  "solid h w p = \<lparr>rows = h, cols = w, pixel_at = (\<lambda>i j. p)\<rparr>"

text \<open>An image whose first \<open>k\<close> rows are filled with \<open>p\<close> and whose other rows with
  \<open>q\<close>.\<close>

definition banded :: "nat \<Rightarrow> nat \<Rightarrow> nat \<Rightarrow> pixel \<Rightarrow> pixel \<Rightarrow> image" where
  "banded h w k p q = \<lparr>rows = h, cols = w, pixel_at = (\<lambda>i j. if i < k then p else q)\<rparr>"

text \<open>An image of one column, given by its pixels from top to bottom.\<close>

definition column :: "pixel list \<Rightarrow> image" where
  "column ps = \<lparr>rows = length ps, cols = 1, pixel_at = (\<lambda>i j. ps ! i)\<rparr>"

section \<open>Properties\<close>

subsection \<open>Rounding to an integer\<close>

lemma round_half_even_cases: "round_half_even x = \<lfloor>x\<rfloor> \<or> round_half_even x = \<lfloor>x\<rfloor> + 1"
  by (simp add: round_half_even_def Let_def)

lemma round_half_even_ge: "of_int n \<le> x \<Longrightarrow> n \<le> round_half_even x"
proof -
  assume "of_int n \<le> x"
  then have "n \<le> \<lfloor>x\<rfloor>" by (simp add: le_floor_iff)
  then show ?thesis using round_half_even_cases [of x] by linarith
qed

lemma round_half_even_le: "x \<le> of_int n \<Longrightarrow> round_half_even x \<le> n"
proof (cases "x = of_int n")
  case True
  then show ?thesis by (simp add: round_half_even_def Let_def)
next
  case False
  assume "x \<le> of_int n"
  with False have "x < of_int n" by simp
  then have "\<lfloor>x\<rfloor> < n" by (simp add: floor_less_iff)
  then show ?thesis using round_half_even_cases [of x] by linarith
qed

lemma round_half_even_above_half:
  assumes "of_int n + 1 / 2 < y"
  shows "n + 1 \<le> round_half_even y"
proof (cases "n + 1 \<le> \<lfloor>y\<rfloor>")
  case True
  then show ?thesis using round_half_even_cases [of y] by linarith
next
  case False
  have "of_int n \<le> y" using assms by simp
  then have "n \<le> \<lfloor>y\<rfloor>" by (simp add: le_floor_iff)
  with False have fl: "\<lfloor>y\<rfloor> = n" by simp
  then show ?thesis using assms by (simp add: round_half_even_def Let_def)
qed

lemma round_half_even_below_half:
  assumes "of_int n \<le> y" "y < of_int n + 1 / 2"
  shows "round_half_even y = n"
proof -
  have "\<lfloor>y\<rfloor> = n" using assms by (intro floor_unique) simp_all
  then show ?thesis using assms by (simp add: round_half_even_def Let_def)
qed

subsection \<open>Doubles\<close>

text \<open>The exponent brackets its argument between two powers of two; rounding stays
  within that bracket and never crosses a double.\<close>

lemma floorlog_pos: "0 < n \<Longrightarrow> 0 < floorlog 2 n"
  by (simp add: floorlog_def)

lemma float_exponent_ge1:
  assumes "1 \<le> x"
  shows "2 powi (float_exponent x) \<le> x \<and> x < 2 powi (float_exponent x + 1)"
proof -
  define F where "F = \<lfloor>x\<rfloor>"
  define n where "n = nat F"
  define f where "f = floorlog 2 n"
  have F1: "1 \<le> F" using assms by (simp add: F_def le_floor_iff)
  then have n: "0 < n" "int n = F" by (simp_all add: n_def)
  have fpos: "0 < f" unfolding f_def using n(1) by (rule floorlog_pos)
  have b: "2 ^ (f - 1) \<le> n" "n < 2 ^ f"
    using floorlog_bounds [of n 2] n(1) by (simp_all add: f_def)
  have e: "float_exponent x = int (f - 1)" "float_exponent x + 1 = int f"
    using assms fpos by (simp_all add: float_exponent_def f_def n_def F_def)
  have "(2::int) ^ (f - 1) \<le> F"
    using b(1) n(2) by (metis of_nat_le_iff of_nat_numeral of_nat_power)
  then have "(of_int ((2::int) ^ (f - 1)) :: rat) \<le> of_int F" by (simp only: of_int_le_iff)
  also have "of_int F \<le> x" by (simp add: F_def)
  finally have lo: "(2::rat) ^ (f - 1) \<le> x" by simp
  have "F + 1 \<le> 2 ^ f"
    using b(2) n(2) by (metis of_nat_less_iff of_nat_numeral of_nat_power zless_imp_add1_zle)
  then have "(of_int (F + 1) :: rat) \<le> of_int (2 ^ f)" by (simp only: of_int_le_iff)
  moreover have "x < of_int (F + 1)"
    unfolding F_def using floor_correct [of x] by blast
  ultimately have "x < of_int ((2::int) ^ f)" by (rule less_le_trans [rotated])
  then have hi: "x < (2::rat) ^ f" by simp
  have "(2::rat) powi (float_exponent x) = 2 ^ (f - 1)"
    by (simp only: e(1) power_int_of_nat)
  moreover have "(2::rat) powi (float_exponent x + 1) = 2 ^ f"
    by (simp only: e(2) power_int_of_nat)
  ultimately show ?thesis using lo hi by (simp only:)
qed

lemma float_exponent_lt1:
  assumes "0 < x" "x < 1"
  shows "2 powi (float_exponent x) \<le> x \<and> x < 2 powi (float_exponent x + 1)"
proof -
  define y where "y = 1 / x"
  define C where "C = \<lceil>y\<rceil>"
  define k where "k = nat (C - 1)"
  define f where "f = floorlog 2 k"
  have y1: "1 < y" using assms by (simp add: y_def)
  then have C2: "2 \<le> C" unfolding C_def by (simp add: le_ceiling_iff)
  then have k: "0 < k" "int k = C - 1" by (simp_all add: k_def)
  have fpos: "0 < f" unfolding f_def using k(1) by (rule floorlog_pos)
  have b: "2 ^ (f - 1) \<le> k" "k < 2 ^ f"
    using floorlog_bounds [of k 2] k(1) by (simp_all add: f_def)
  have e: "float_exponent x = - int f" "float_exponent x + 1 = - int (f - 1)"
    using assms fpos by (simp_all add: float_exponent_def f_def k_def C_def y_def)
  have "C \<le> 2 ^ f"
    using b(2) k(2) by (metis add.commute of_nat_less_iff of_nat_numeral of_nat_power
        zless_imp_add1_zle diff_add_cancel)
  then have "(of_int C :: rat) \<le> of_int (2 ^ f)" by (simp only: of_int_le_iff)
  moreover have "y \<le> of_int C" by (simp add: C_def)
  ultimately have "y \<le> of_int ((2::int) ^ f)" by (rule order_trans [rotated])
  then have "y \<le> 2 ^ f" by simp
  then have lo: "1 / 2 ^ f \<le> x"
    using assms(1) by (simp add: y_def field_simps)
  have "(2::int) ^ (f - 1) \<le> C - 1"
    using b(1) k(2) by (metis of_nat_le_iff of_nat_numeral of_nat_power)
  then have "(of_int ((2::int) ^ (f - 1)) :: rat) \<le> of_int (C - 1)"
    by (simp only: of_int_le_iff)
  moreover have "of_int (C - 1) < y"
    unfolding C_def using ceiling_correct [of y] by simp
  ultimately have "of_int ((2::int) ^ (f - 1)) < y" by (rule le_less_trans)
  then have "(2::rat) ^ (f - 1) < y" by simp
  then have hi: "x < 1 / 2 ^ (f - 1)"
    using assms(1) by (simp add: y_def field_simps)
  have "(2::rat) powi (float_exponent x) = 1 / 2 ^ f"
    by (simp only: e(1) power_int_minus power_int_of_nat inverse_eq_divide)
  moreover have "(2::rat) powi (float_exponent x + 1) = 1 / 2 ^ (f - 1)"
    by (simp only: e(2) power_int_minus power_int_of_nat inverse_eq_divide)
  ultimately show ?thesis using lo hi by (simp only:)
qed

lemma float_exponent_bounds:
  assumes "0 < x"
  shows "2 powi (float_exponent x) \<le> x" and "x < 2 powi (float_exponent x + 1)"
  using assms float_exponent_ge1 [of x] float_exponent_lt1 [of x]
  by (cases "1 \<le> x"; simp)+

lemma float_exponent_mono:
  assumes "0 < x" "x \<le> y"
  shows "float_exponent x \<le> float_exponent y"
proof (rule ccontr)
  assume "\<not> float_exponent x \<le> float_exponent y"
  then have "float_exponent y + 1 \<le> float_exponent x" by simp
  then have "(2::rat) powi (float_exponent y + 1) \<le> 2 powi (float_exponent x)"
    by (rule power_int_increasing) simp
  also have "\<dots> \<le> x" using assms(1) by (rule float_exponent_bounds)
  also have "x \<le> y" by (rule assms(2))
  finally show False
    using float_exponent_bounds(2) [of y] assms by simp
qed

lemma float_exponent_eqI:
  assumes "2 powi e \<le> x" "x < 2 powi (e + 1)"
  shows "float_exponent x = e"
proof -
  have "0 < (2::rat) powi e" by simp
  with assms(1) have pos: "0 < x" by linarith
  have "\<not> e + 1 \<le> float_exponent x"
  proof
    assume "e + 1 \<le> float_exponent x"
    then have "(2::rat) powi (e + 1) \<le> 2 powi (float_exponent x)"
      by (rule power_int_increasing) simp
    with float_exponent_bounds(1) [OF pos] assms(2) show False by simp
  qed
  moreover have "\<not> float_exponent x + 1 \<le> e"
  proof
    assume "float_exponent x + 1 \<le> e"
    then have "(2::rat) powi (float_exponent x + 1) \<le> 2 powi e"
      by (rule power_int_increasing) simp
    with float_exponent_bounds(2) [OF pos] assms(1) show False by simp
  qed
  ultimately show ?thesis by simp
qed

lemma to_double_pos_eq:
  "0 < x \<Longrightarrow>
   to_double x =
     of_int (round_half_even (x / 2 powi (float_exponent x - 52))) *
       2 powi (float_exponent x - 52)"
  by (simp add: to_double_def Let_def)

lemma powi_split:
  "(2::rat) powi e = 2 ^ 52 * 2 powi (e - 52)"
  "(2::rat) powi (e + 1) = 2 ^ 53 * 2 powi (e - 52)"
proof -
  have "(2::rat) powi e = 2 powi (52 + (e - 52))" by simp
  also have "\<dots> = 2 powi 52 * 2 powi (e - 52)" by (rule power_int_add) simp
  finally show "(2::rat) powi e = 2 ^ 52 * 2 powi (e - 52)" by simp
  have "e + 1 = 53 + (e - 52)" by simp
  then have "(2::rat) powi (e + 1) = 2 powi (53 + (e - 52))" by (rule arg_cong)
  also have "\<dots> = 2 powi 53 * 2 powi (e - 52)" by (rule power_int_add) simp
  finally show "(2::rat) powi (e + 1) = 2 ^ 53 * 2 powi (e - 52)" by simp
qed

lemma to_double_binade:
  assumes "0 < x"
  shows "2 powi (float_exponent x) \<le> to_double x"
    and "to_double x \<le> 2 powi (float_exponent x + 1)"
proof -
  define q :: rat where "q = 2 powi (float_exponent x - 52)"
  have q: "0 < q" by (simp add: q_def)
  have td: "to_double x = of_int (round_half_even (x / q)) * q"
    unfolding q_def using assms by (rule to_double_pos_eq)
  have p1: "2 powi (float_exponent x) = 2 ^ 52 * q"
    unfolding q_def by (rule powi_split(1))
  have p2: "2 powi (float_exponent x + 1) = 2 ^ 53 * q"
    unfolding q_def by (rule powi_split(2))
  have "2 ^ 52 * q \<le> x"
    using float_exponent_bounds(1) [OF assms] unfolding p1 .
  then have "of_int (2 ^ 52) \<le> x / q" using q by (simp add: pos_le_divide_eq)
  then have "2 ^ 52 \<le> round_half_even (x / q)" by (rule round_half_even_ge)
  then have "(of_int (2 ^ 52) :: rat) \<le> of_int (round_half_even (x / q))"
    by (simp only: of_int_le_iff)
  then have "of_int (2 ^ 52) * q \<le> of_int (round_half_even (x / q)) * q"
    using q by (simp only: mult_le_cancel_right_pos)
  then show "2 powi (float_exponent x) \<le> to_double x"
    unfolding p1 td by simp
  have "x < 2 ^ 53 * q"
    using float_exponent_bounds(2) [OF assms] unfolding p2 .
  then have "x / q \<le> of_int (2 ^ 53)" using q by (simp add: pos_divide_le_eq)
  then have "round_half_even (x / q) \<le> 2 ^ 53" by (rule round_half_even_le)
  then have "(of_int (round_half_even (x / q)) :: rat) \<le> of_int (2 ^ 53)"
    by (simp only: of_int_le_iff)
  then have "of_int (round_half_even (x / q)) * q \<le> of_int (2 ^ 53) * q"
    using q by (simp only: mult_le_cancel_right_pos)
  then show "to_double x \<le> 2 powi (float_exponent x + 1)"
    unfolding p2 td by simp
qed

lemma to_double_pos: "0 < x \<Longrightarrow> 0 < to_double x"
proof -
  assume x: "0 < x"
  have "0 < (2::rat) powi (float_exponent x)" by simp
  with to_double_binade(1) [OF x] show ?thesis by linarith
qed

lemma to_double_nonneg: "0 \<le> x \<Longrightarrow> 0 \<le> to_double x"
  using to_double_pos [of x] by (cases "x = 0") (simp_all add: to_double_def)

lemma to_double_ge:
  assumes "0 < a" "a \<le> x" "a = of_int n * 2 powi (float_exponent a - 52)"
  shows "a \<le> to_double x"
proof -
  have x: "0 < x" using assms(1,2) by simp
  have le: "float_exponent a \<le> float_exponent x"
    using assms(1,2) by (rule float_exponent_mono)
  show ?thesis
  proof (cases "float_exponent a = float_exponent x")
    case True
    define q :: rat where "q = 2 powi (float_exponent x - 52)"
    have q: "0 < q" by (simp add: q_def)
    have a: "a = of_int n * q" using assms(3) by (simp only: True q_def)
    have "of_int n \<le> x / q" using assms(2) q by (simp add: a pos_le_divide_eq)
    then have "n \<le> round_half_even (x / q)" by (rule round_half_even_ge)
    then have "(of_int n :: rat) \<le> of_int (round_half_even (x / q))"
      by (simp only: of_int_le_iff)
    then have "of_int n * q \<le> of_int (round_half_even (x / q)) * q"
      using q by (simp only: mult_le_cancel_right_pos)
    then show ?thesis
      unfolding to_double_pos_eq [OF x] a q_def .
  next
    case False
    with le have "float_exponent a + 1 \<le> float_exponent x" by simp
    then have "(2::rat) powi (float_exponent a + 1) \<le> 2 powi (float_exponent x)"
      by (rule power_int_increasing) simp
    with float_exponent_bounds(2) [OF assms(1)] to_double_binade(1) [OF x]
    show ?thesis by linarith
  qed
qed

lemma to_double_le:
  assumes "0 < x" "x \<le> a" "a = of_int n * 2 powi (float_exponent a - 52)"
  shows "to_double x \<le> a"
proof -
  have a: "0 < a" using assms(1,2) by simp
  have le: "float_exponent x \<le> float_exponent a"
    using assms(1,2) by (rule float_exponent_mono)
  show ?thesis
  proof (cases "float_exponent x = float_exponent a")
    case True
    define q :: rat where "q = 2 powi (float_exponent x - 52)"
    have q: "0 < q" by (simp add: q_def)
    have aq: "a = of_int n * q" using assms(3) by (simp only: True q_def)
    have "x / q \<le> of_int n" using assms(2) q by (simp add: aq pos_divide_le_eq)
    then have "round_half_even (x / q) \<le> n" by (rule round_half_even_le)
    then have "(of_int (round_half_even (x / q)) :: rat) \<le> of_int n"
      by (simp only: of_int_le_iff)
    then have "of_int (round_half_even (x / q)) * q \<le> of_int n * q"
      using q by (simp only: mult_le_cancel_right_pos)
    then show ?thesis
      unfolding to_double_pos_eq [OF assms(1)] aq q_def .
  next
    case False
    with le have "float_exponent x + 1 \<le> float_exponent a" by simp
    then have "(2::rat) powi (float_exponent x + 1) \<le> 2 powi (float_exponent a)"
      by (rule power_int_increasing) simp
    with float_exponent_bounds(1) [OF a] to_double_binade(2) [OF assms(1)]
    show ?thesis by linarith
  qed
qed

lemma representable_consts:
  "(1::rat) = of_int (2 ^ 52) * 2 powi (float_exponent 1 - 52)"
  "(5::rat) = of_int (5 * 2 ^ 50) * 2 powi (float_exponent 5 - 52)"
  "(100::rat) = of_int (25 * 2 ^ 48) * 2 powi (float_exponent 100 - 52)"
  "(1 / 8 :: rat) = of_int (2 ^ 52) * 2 powi (float_exponent (1 / 8) - 52)"
  by code_simp+

lemma to_double_consts: "to_double 5 = 5" "to_double 100 = 100" "to_double 1 = 1"
  by code_simp+


lemma float_exponent_consts:
  "float_exponent 1 = 0" "float_exponent 5 = 2" "float_exponent 100 = 6"
  by code_simp+

lemma to_double_le0:
  assumes "0 \<le> x" "x \<le> a" "a = of_int n * 2 powi (float_exponent a - 52)"
  shows "to_double x \<le> a"
proof (cases "x = 0")
  case True
  with assms(2) show ?thesis by (simp add: to_double_def)
next
  case False
  with assms(1) have "0 < x" by simp
  then show ?thesis using assms(2,3) by (rule to_double_le)
qed

lemma powi_consts:
  "(2::rat) powi (- 4) = 1 / 16" "(2::rat) powi (- 4 + 1) = 1 / 8"
  "(2::rat) powi (- 4 - 52) = 1 / 72057594037927936"
  by code_simp+

lemma to_double_gt_tenth:
  assumes "1 / 10 < x"
  shows "1 / 10 < to_double x"
proof (cases "1 / 8 \<le> x")
  case True
  have "(1 / 8 :: rat) \<le> to_double x"
    by (rule to_double_ge [OF _ True representable_consts(4)]) simp
  then show ?thesis by simp
next
  case False
  have pos: "0 < x" using assms by simp
  have "(2::rat) powi (- 4) \<le> x" "x < 2 powi (- 4 + 1)"
    using assms False unfolding powi_consts by simp_all
  then have e: "float_exponent x = - 4" by (rule float_exponent_eqI)
  define k where "k = round_half_even (x / (1 / 72057594037927936))"
  have td: "to_double x = of_int k * (1 / 72057594037927936)"
    unfolding to_double_pos_eq [OF pos] e powi_consts k_def ..
  have "of_int 7205759403792793 + 1 / 2 < x / (1 / 72057594037927936)"
    using assms by simp
  then have "7205759403792793 + 1 \<le> k"
    unfolding k_def by (rule round_half_even_above_half)
  then have "(of_int (7205759403792793 + 1) :: rat) \<le> of_int k"
    by (simp only: of_int_le_iff)
  then show ?thesis unfolding td by simp
qed

lemma py_round1_bounds:
  assumes "5 < p" "p \<le> 100"
  shows "5 \<le> py_round1 p" and "py_round1 p \<le> 100"
    and "\<exists>n::int. py_round1 p = to_double (of_int n / 10)"
proof -
  define k where "k = round_half_even (p * 10)"
  have "of_int 50 \<le> p * 10" using assms(1) by simp
  then have "50 \<le> k" unfolding k_def by (rule round_half_even_ge)
  then have "(of_int 50 :: rat) \<le> of_int k" by (simp only: of_int_le_iff)
  then have lo: "5 \<le> (of_int k :: rat) / 10" by simp
  have "p * 10 \<le> of_int 1000" using assms(2) by simp
  then have "k \<le> 1000" unfolding k_def by (rule round_half_even_le)
  then have "(of_int k :: rat) \<le> of_int 1000" by (simp only: of_int_le_iff)
  then have hi: "(of_int k :: rat) / 10 \<le> 100" by simp
  have r: "py_round1 p = to_double (of_int k / 10)" by (simp add: py_round1_def k_def)
  show "5 \<le> py_round1 p"
    unfolding r by (rule to_double_ge [OF _ lo representable_consts(2)]) simp
  show "py_round1 p \<le> 100"
    unfolding r using lo by (intro to_double_le0 [OF _ hi representable_consts(3)]) simp
  show "\<exists>n::int. py_round1 p = to_double (of_int n / 10)"
    using r by blast
qed

lemma py_round1_just_above_5:
  assumes "5 < p" "p < 101 / 20"
  shows "py_round1 p = 5"
proof -
  have "round_half_even (p * 10) = 50"
    using assms by (intro round_half_even_below_half) simp_all
  then show ?thesis by (simp add: py_round1_def to_double_consts)
qed

subsection \<open>Counting pixels\<close>

lemma length_pixels_of: "length (pixels_of img) = rows img * cols img"
  by (simp add: pixels_of_def length_concat comp_def sum_list_triv)

lemma countNonZero_inRange:
  "countNonZero (inRange img l u) = length (filter (in_bounds l u) (pixels_of img))"
  by (simp add: countNonZero_def inRange_def filter_map comp_def)

lemma countNonZero_le: "countNonZero (inRange img l u) \<le> rows img * cols img"
  unfolding countNonZero_inRange
  using length_filter_le [of "in_bounds l u" "pixels_of img"] by (simp add: length_pixels_of)

lemma pixels_of_cvt:
  "pixels_of (roi\<lparr>pixel_at := (\<lambda>i j. cvt (pixel_at roi i j))\<rparr>) = map cvt (pixels_of roi)"
  by (simp add: pixels_of_def map_concat comp_def)

lemma dict_set_fresh: "k \<notin> fst ` set d \<Longrightarrow> dict_set d k v = d @ [(k, v)]"
  by (induction d) auto

lemma detect_loop_eq:
  assumes "0 < rows hsv * cols hsv"
  shows "distinct (map fst acc @ map fst bands) \<Longrightarrow>
    detect_loop hsv (rows hsv * cols hsv) bands acc =
      Inr (acc @ map (\<lambda>(n, l, u). (n, py_round1 (band_percentage hsv l u)))
                   (filter (\<lambda>(n, l, u). 5 < band_percentage hsv l u) bands))"
proof (induction bands arbitrary: acc)
  case Nil
  show ?case by simp
next
  case (Cons band rest)
  obtain n l u where band: "band = (n, l, u)" by (cases band) auto
  define acc' where "acc' =
    (if 5 < band_percentage hsv l u then acc @ [(n, py_round1 (band_percentage hsv l u))]
     else acc)"
  have fresh: "n \<notin> fst ` set acc" using Cons.prems by (auto simp: band)
  have "distinct (map fst acc' @ map fst rest)"
    using Cons.prems by (auto simp: band acc'_def)
  then have "detect_loop hsv (rows hsv * cols hsv) rest acc' =
      Inr (acc' @ map (\<lambda>(n, l, u). (n, py_round1 (band_percentage hsv l u)))
                   (filter (\<lambda>(n, l, u). 5 < band_percentage hsv l u) rest))"
    by (rule Cons.IH)
  moreover have "detect_loop hsv (rows hsv * cols hsv) (band # rest) acc =
      detect_loop hsv (rows hsv * cols hsv) rest acc'"
    using assms fresh
    by (simp add: band py_truediv_def Let_def acc'_def band_percentage_def dict_set_fresh)
  ultimately show ?case by (simp add: band acc'_def)
qed

lemma distinct_COLOR_RANGES: "distinct (map fst COLOR_RANGES)"
  by (simp add: COLOR_RANGES_def)

lemma detect_colors_eq:
  assumes "roi_size roi \<noteq> 0"
  shows "detect_colors cvt roi =
     Inr (map (\<lambda>(n, l, u). (n, py_round1 (band_percentage
                 (roi\<lparr>pixel_at := (\<lambda>i j. cvt (pixel_at roi i j))\<rparr>) l u)))
           (filter (\<lambda>(n, l, u). 5 < band_percentage
                 (roi\<lparr>pixel_at := (\<lambda>i j. cvt (pixel_at roi i j))\<rparr>) l u) COLOR_RANGES))"
proof -
  let ?hsv = "roi\<lparr>pixel_at := (\<lambda>i j. cvt (pixel_at roi i j))\<rparr>"
  have pos: "0 < rows ?hsv * cols ?hsv"
    using assms by (simp add: roi_size_def)
  have "detect_loop ?hsv (rows ?hsv * cols ?hsv) COLOR_RANGES [] =
      Inr ([] @ map (\<lambda>(n, l, u). (n, py_round1 (band_percentage ?hsv l u)))
                   (filter (\<lambda>(n, l, u). 5 < band_percentage ?hsv l u) COLOR_RANGES))"
    by (rule detect_loop_eq [OF pos]) (simp add: distinct_COLOR_RANGES)
  then show ?thesis
    using assms by (simp add: detect_colors_def cvtColor_def)
qed

lemma count_rows:
  "length (filter P (concat (map (\<lambda>i. replicate w (if i < k then a else b)) [0..<h]))) =
     (if P a then min k h * w else 0) + (if P b then (h - k) * w else 0)"
proof (induction h)
  case 0
  show ?case by simp
next
  case (Suc h)
  show ?case
  proof (cases "h < k")
    case True
    then have "min k (Suc h) = Suc h" "min k h = h" "Suc h - k = 0" "h - k = 0"
      by simp_all
    with True Suc show ?thesis by simp
  next
    case False
    then have "min k (Suc h) = k" "min k h = k" "Suc h - k = Suc (h - k)"
      by simp_all
    with False Suc show ?thesis by simp
  qed
qed

lemma rows_banded [simp]: "rows (banded h w k p q) = h"
  and cols_banded [simp]: "cols (banded h w k p q) = w"
  by (simp_all add: banded_def)

lemma count_banded:
  "countNonZero (inRange ((banded h w k p q)\<lparr>pixel_at :=
       (\<lambda>i j. cvt (pixel_at (banded h w k p q) i j))\<rparr>) l u) =
     (if in_bounds l u (cvt p) then min k h * w else 0) +
     (if in_bounds l u (cvt q) then (h - k) * w else 0)"
proof -
  have "pixels_of (banded h w k p q) =
          concat (map (\<lambda>i. replicate w (if i < k then p else q)) [0..<h])"
    by (simp add: pixels_of_def banded_def map_replicate_const)
  then have "length (filter (in_bounds l u) (map cvt (pixels_of (banded h w k p q)))) =
      (if (in_bounds l u \<circ> cvt) p then min k h * w else 0) +
      (if (in_bounds l u \<circ> cvt) q then (h - k) * w else 0)"
    by (simp only: filter_map length_map count_rows)
  then show ?thesis
    by (simp only: countNonZero_inRange pixels_of_cvt comp_def)
qed


lemma band_percentage_le_100:
  assumes "0 < rows hsv * cols hsv"
  shows "band_percentage hsv l u \<le> 100"
proof -
  define c where "c = countNonZero (inRange hsv (np_uint8 l) (np_uint8 u))"
  define x :: rat where "x = of_nat c / of_nat (rows hsv * cols hsv)"
  have "c \<le> rows hsv * cols hsv" unfolding c_def by (rule countNonZero_le)
  then have "(of_nat c :: rat) \<le> of_nat (rows hsv * cols hsv)" by (simp only: of_nat_le_iff)
  then have x: "0 \<le> x" "x \<le> 1"
    unfolding x_def using assms by (simp_all add: divide_le_eq)
  have d: "0 \<le> to_double x" "to_double x \<le> 1"
    using x to_double_nonneg [of x] to_double_le0 [OF x representable_consts(1)] by simp_all
  then have y: "0 \<le> to_double x * 100" "to_double x * 100 \<le> 100" by simp_all
  have "to_double (to_double x * 100) \<le> 100"
    using y by (rule to_double_le0 [OF _ _ representable_consts(3)])
  then show ?thesis
    by (simp add: band_percentage_def float_mul_def c_def x_def)
qed

subsection \<open>Counting on the test inputs\<close>

lemma pixels_of_column: "pixels_of (column ps) = ps"
proof -
  have "concat (map (\<lambda>i. [ps ! i]) [0..<length ps]) = map (\<lambda>i. ps ! i) [0..<length ps]"
    by (induction "[0..<length ps]") (simp_all add: concat_map_singleton)
  then show ?thesis by (simp add: pixels_of_def column_def map_nth)
qed

lemma band_percentage_column:
  "band_percentage ((column ps)\<lparr>pixel_at := (\<lambda>i j. cvt (pixel_at (column ps) i j))\<rparr>) l u =
     float_mul
       (to_double (of_nat (length (filter (in_bounds (np_uint8 l) (np_uint8 u)) (map cvt ps))) /
          of_nat (length ps)))
       100"
  by (simp add: band_percentage_def countNonZero_inRange pixels_of_cvt pixels_of_column)
    (simp add: column_def)

lemma dict_get_absent:
  "k \<notin> fst ` set bands \<Longrightarrow>
   dict_get (map (\<lambda>(n, l, u). (n, f l u)) (filter (\<lambda>(n, l, u). P l u) bands)) k dflt = dflt"
  by (induction bands) auto

lemma dict_get_map_filter:
  "distinct (map fst bands) \<Longrightarrow> (k, l, u) \<in> set bands \<Longrightarrow>
   dict_get (map (\<lambda>(n, l, u). (n, f l u)) (filter (\<lambda>(n, l, u). P l u) bands)) k dflt =
     (if P l u then f l u else dflt)"
proof (induction bands)
  case Nil
  then show ?case by simp
next
  case (Cons b bands)
  obtain n l' u' where b: "b = (n, l', u')" by (cases b) auto
  show ?case
  proof (cases "n = k")
    case True
    with Cons.prems have "(l', u') = (l, u)" and "k \<notin> fst ` set bands"
      by (force simp: b)+
    with True show ?thesis by (simp add: b dict_get_absent)
  next
    case False
    with Cons show ?thesis by (auto simp: b)
  qed
qed

lemma bgr2hsv_black: "bgr2hsv (0, 0, 0) = (0, 0, 0)"
  and bgr2hsv_white: "bgr2hsv (255, 255, 255) = (0, 0, 255)"
  and bgr2hsv_red: "bgr2hsv (0, 0, 255) = (0, 255, 255)"
  and bgr2hsv_green: "bgr2hsv (0, 255, 0) = (60, 255, 255)"
  and bgr2hsv_wrap: "bgr2hsv (3, 0, 180) = (179, 255, 180)"
  by code_simp+

lemma detect_values:
  "5 < float_mul (to_double (6 / 119)) 100"
  "float_mul (to_double (6 / 119)) 100 < 101 / 20"
  "py_round1 (float_mul (to_double (6 / 119)) 100) = 5"
  by code_simp+

subsection \<open>The stored percentages\<close>

text \<open>
  Claim C1, as amended. For every non-empty ROI \<open>detect_colors\<close> returns a dictionary
  (it does not raise). It holds, in the order of the table, exactly the bands whose
  unrounded percentage is strictly above 5, each with that percentage rounded by
  \<open>round(percentage, 1)\<close>. Every stored value lies in the closed interval from 5.0 to
  100.0 and is the double nearest to a decimal with one place. The threshold is tested
  before the rounding, so the lower bound is not strict: a band whose unrounded percentage
  lies strictly between 5 and 5.05 is retained with the stored value 5.0.
\<close>

theorem detect_colors_percentages:
  assumes "roi_size roi \<noteq> 0"
  shows "let hsv = roi\<lparr>pixel_at := (\<lambda>i j. cvt (pixel_at roi i j))\<rparr>
         in \<exists>d. detect_colors cvt roi = Inr d \<and>
              d = map (\<lambda>(name, l, u). (name, py_round1 (band_percentage hsv l u)))
                    (filter (\<lambda>(name, l, u). 5 < band_percentage hsv l u) COLOR_RANGES) \<and>
              (\<forall>(name, v)\<in>set d.
                  5 \<le> v \<and> v \<le> 100 \<and> (\<exists>n::int. v = to_double (of_int n / 10))) \<and>
              (\<forall>(name, l, u)\<in>set COLOR_RANGES.
                  5 < band_percentage hsv l u \<and> band_percentage hsv l u < 101 / 20 \<longrightarrow>
                  (name, 5) \<in> set d)"
proof -
  define hsv where "hsv = roi\<lparr>pixel_at := (\<lambda>i j. cvt (pixel_at roi i j))\<rparr>"
  define d where
    "d = map (\<lambda>(name, l, u). (name, py_round1 (band_percentage hsv l u)))
           (filter (\<lambda>(name, l, u). 5 < band_percentage hsv l u) COLOR_RANGES)"
  have pos: "0 < rows hsv * cols hsv"
    using assms by (simp add: hsv_def roi_size_def)
  have eq: "detect_colors cvt roi = Inr d"
    unfolding d_def hsv_def using assms by (rule detect_colors_eq)
  have bounds: "5 \<le> v \<and> v \<le> 100 \<and> (\<exists>n::int. v = to_double (of_int n / 10))"
    if "(name, v) \<in> set d" for name v
  proof -
    from that obtain l u where "5 < band_percentage hsv l u"
      and v: "v = py_round1 (band_percentage hsv l u)"
      unfolding d_def by auto
    moreover have "band_percentage hsv l u \<le> 100"
      using pos by (rule band_percentage_le_100)
    ultimately show ?thesis
      using py_round1_bounds [of "band_percentage hsv l u"] by simp
  qed
  have kept: "(name, 5) \<in> set d"
    if "(name, l, u) \<in> set COLOR_RANGES" "5 < band_percentage hsv l u"
      "band_percentage hsv l u < 101 / 20" for name l u
  proof -
    have "py_round1 (band_percentage hsv l u) = 5"
      using that(2,3) by (rule py_round1_just_above_5)
    moreover have "(name, py_round1 (band_percentage hsv l u)) \<in> set d"
      unfolding d_def using that(1,2) by force
    ultimately show ?thesis by simp
  qed
  show ?thesis
    unfolding Let_def hsv_def [symmetric]
    using eq bounds kept by (intro exI [of _ d] conjI) (auto simp: d_def [symmetric])
qed

theorem detect_colors_percentages_witness:
  "roi_size (banded 119 1 6 (0, 0, 0) (255, 255, 255)) \<noteq> 0 \<and>
   (let hsv = (banded 119 1 6 (0, 0, 0) (255, 255, 255))\<lparr>pixel_at :=
          (\<lambda>i j. bgr2hsv (pixel_at (banded 119 1 6 (0, 0, 0) (255, 255, 255)) i j))\<rparr>
    in \<exists>d. detect_colors bgr2hsv (banded 119 1 6 (0, 0, 0) (255, 255, 255)) = Inr d \<and>
         d = map (\<lambda>(name, l, u). (name, py_round1 (band_percentage hsv l u)))
               (filter (\<lambda>(name, l, u). 5 < band_percentage hsv l u) COLOR_RANGES) \<and>
         (\<forall>(name, v)\<in>set d.
             5 \<le> v \<and> v \<le> 100 \<and> (\<exists>n::int. v = to_double (of_int n / 10))) \<and>
         (\<forall>(name, l, u)\<in>set COLOR_RANGES.
             5 < band_percentage hsv l u \<and> band_percentage hsv l u < 101 / 20 \<longrightarrow>
             (name, 5) \<in> set d))"
proof -
  have size: "roi_size (banded 119 1 6 (0, 0, 0) (255, 255, 255)) \<noteq> 0"
    by (simp add: roi_size_def)
  show ?thesis
    using size detect_colors_percentages [OF size, of bgr2hsv] by blast
qed

text \<open>The claim as first stated fails: a stored percentage need not be strictly above
  5.0. In a ROI of 119 rows and 1 column with 6 black pixels the band \<open>black\<close> holds
  5.042 per cent, which passes the threshold and is stored as 5.0.\<close>

theorem stored_percentage_5_counterexample:
  "roi_size (banded 119 1 6 (0, 0, 0) (255, 255, 255)) \<noteq> 0 \<and>
   (\<exists>d. detect_colors bgr2hsv (banded 119 1 6 (0, 0, 0) (255, 255, 255)) = Inr d \<and>
        (''black'', 5) \<in> set d \<and> \<not> (5::rat) < 5)"
proof -
  let ?roi = "banded 119 1 6 (0, 0, 0) (255, 255, 255)"
  let ?hsv = "?roi\<lparr>pixel_at := (\<lambda>i j. bgr2hsv (pixel_at ?roi i j))\<rparr>"
  have size: "roi_size ?roi \<noteq> 0" by (simp add: roi_size_def)
  have pct: "band_percentage ?hsv (0, 0, 0) (180, 255, 50) =
      float_mul (to_double (6 / 119)) 100"
    by (simp add: band_percentage_def count_banded np_uint8_def in_bounds_def
        bgr2hsv_black bgr2hsv_white)
  have "(''black'', (0, 0, 0), (180, 255, 50)) \<in> set COLOR_RANGES"
    by (simp add: COLOR_RANGES_def)
  then have "(''black'', py_round1 (band_percentage ?hsv (0, 0, 0) (180, 255, 50))) \<in>
      set (map (\<lambda>(n, l, u). (n, py_round1 (band_percentage ?hsv l u)))
           (filter (\<lambda>(n, l, u). 5 < band_percentage ?hsv l u) COLOR_RANGES))"
    unfolding set_map set_filter using pct detect_values(1) by force
  moreover have "py_round1 (band_percentage ?hsv (0, 0, 0) (180, 255, 50)) = 5"
    by (simp only: pct detect_values)
  ultimately have mem: "(''black'', 5) \<in>
      set (map (\<lambda>(n, l, u). (n, py_round1 (band_percentage ?hsv l u)))
           (filter (\<lambda>(n, l, u). 5 < band_percentage ?hsv l u) COLOR_RANGES))"
    by (simp only:)
  have eq: "detect_colors bgr2hsv ?roi =
      Inr (map (\<lambda>(n, l, u). (n, py_round1 (band_percentage ?hsv l u)))
           (filter (\<lambda>(n, l, u). 5 < band_percentage ?hsv l u) COLOR_RANGES))"
    by (rule detect_colors_eq [OF size])
  show ?thesis
  proof (intro conjI exI)
    show "roi_size ?roi \<noteq> 0" by (rule size)
    show "detect_colors bgr2hsv ?roi =
      Inr (map (\<lambda>(n, l, u). (n, py_round1 (band_percentage ?hsv l u)))
           (filter (\<lambda>(n, l, u). 5 < band_percentage ?hsv l u) COLOR_RANGES))"
      by (rule eq)
    show "(''black'', 5) \<in>
      set (map (\<lambda>(n, l, u). (n, py_round1 (band_percentage ?hsv l u)))
           (filter (\<lambda>(n, l, u). 5 < band_percentage ?hsv l u) COLOR_RANGES))"
      by (rule mem)
    show "\<not> (5::rat) < 5" by simp
  qed
qed

lemma detect_colors_total: "\<exists>d. detect_colors cvt roi = Inr d"
proof (cases "roi_size roi = 0")
  case True
  then show ?thesis by (simp add: detect_colors_def)
next
  case False
  then show ?thesis by (simp add: detect_colors_eq)
qed

subsection \<open>The palette\<close>

text \<open>
  Claim C4, as amended. The palette table has exactly 31 bands with pairwise different
  names: 28 in the seven hue families of the table's comment headers (4 reds, 5 oranges
  and browns, 3 yellows, 5 greens, 4 blues and cyans, 5 purples and violets, 2 pinks) and
  the three neutrals white, gray and black. The neutrals are exactly the bands whose hue
  range is the whole hue domain 0..180; they differ only in their saturation and value
  ranges.
\<close>

theorem palette_bands:
  "length COLOR_RANGES = 31 \<and>
   distinct (map fst COLOR_RANGES) \<and>
   map fst COLOR_RANGES = concat (map snd band_families) \<and>
   map (\<lambda>(family, names). (family, length names)) band_families =
     [(''Reds'', 4), (''Oranges and browns'', 5), (''Yellows'', 3), (''Greens'', 5),
      (''Blues and cyans'', 4), (''Purples and violets'', 5), (''Pinks'', 2),
      (''Neutrals'', 3)] \<and>
   filter (\<lambda>(name, (h0, s0, v0), (h1, s1, v1)). h0 = 0 \<and> h1 = 180) COLOR_RANGES =
     [(''white'', (0, 0, 200), (180, 30, 255)),
      (''gray'', (0, 0, 80), (180, 30, 200)),
      (''black'', (0, 0, 0), (180, 255, 50))]"
  by (simp add: COLOR_RANGES_def band_families_def)

text \<open>The claim as first stated gives the number of bands as 33.\<close>

theorem palette_33_counterexample: "length COLOR_RANGES \<noteq> 33"
  by (simp add: COLOR_RANGES_def)

subsection \<open>Zero-area regions\<close>

text \<open>
  Claim C7. For a ROI of zero area, whatever the conversion, the requested number of
  colours and the profile: \<open>detect_colors\<close> returns the empty dictionary,
  \<open>get_dominant_colors\<close> the empty list, \<open>analyze_region\<close> a result with no dominant
  colours, the problem flag off, no warning and no breakdown, and
  \<open>analyze_traffic_light\<close> the state unknown with confidence 0. Each is a returned
  value (\<open>Inr\<close>), not an exception.
\<close>

theorem zero_area_results:
  assumes "roi_size roi = 0"
  shows "detect_colors cvt roi = Inr [] \<and>
         get_dominant_colors cvt roi top_n = Inr [] \<and>
         analyze_region cvt roi t =
           Inr \<lparr>dominant_colors = [], is_problematic = False, warning = None,
                color_breakdown = None\<rparr> \<and>
         analyze_traffic_light cvt roi = Inr \<lparr>state = ''unknown'', confidence = 0\<rparr>"
  using assms
  by (simp add: detect_colors_def get_dominant_colors_def analyze_region_def
      analyze_traffic_light_def sorted_reverse_def)

theorem zero_area_results_witness:
  "roi_size (solid 0 5 (0, 0, 255)) = 0 \<and>
   detect_colors bgr2hsv (solid 0 5 (0, 0, 255)) = Inr [] \<and>
   get_dominant_colors bgr2hsv (solid 0 5 (0, 0, 255)) 3 = Inr [] \<and>
   analyze_region bgr2hsv (solid 0 5 (0, 0, 255)) PROTANOPIA =
     Inr \<lparr>dominant_colors = [], is_problematic = False, warning = None,
          color_breakdown = None\<rparr> \<and>
   analyze_traffic_light bgr2hsv (solid 0 5 (0, 0, 255)) =
     Inr \<lparr>state = ''unknown'', confidence = 0\<rparr>"
proof -
  have size: "roi_size (solid 0 5 (0, 0, 255)) = 0"
    by (simp add: roi_size_def solid_def)
  show ?thesis
    using size zero_area_results [OF size, of bgr2hsv 3 PROTANOPIA] by simp
qed

subsection \<open>The problem flag and the warning\<close>

lemma is_problematic_flag:
  "fst (is_problematic_for_user d t) \<longleftrightarrow> snd (is_problematic_for_user d t) \<noteq> None"
  by (simp add: is_problematic_for_user_def Let_def)

lemma get_dominant_colors_total: "\<exists>ds. get_dominant_colors cvt roi top_n = Inr ds"
  using detect_colors_total [of cvt roi] by (auto simp: get_dominant_colors_def)

text \<open>
  Claim C9. For every dictionary and profile the flag returned by
  \<open>is_problematic_for_user\<close> is on exactly when its warning is a string; and for every
  ROI \<open>analyze_region\<close> returns a result whose fields \<open>is_problematic\<close> and
  \<open>warning\<close> agree in the same way.
\<close>

theorem problem_flag_iff_warning:
  "(fst (is_problematic_for_user d t) \<longleftrightarrow> snd (is_problematic_for_user d t) \<noteq> None) \<and>
   (\<exists>r. analyze_region cvt roi t = Inr r \<and> (is_problematic r \<longleftrightarrow> warning r \<noteq> None))"
proof -
  obtain dc where dc: "detect_colors cvt roi = Inr dc"
    using detect_colors_total by blast
  obtain ds where ds: "get_dominant_colors cvt roi 3 = Inr ds"
    using get_dominant_colors_total by blast
  have "\<exists>r. analyze_region cvt roi t = Inr r \<and> (is_problematic r \<longleftrightarrow> warning r \<noteq> None)"
    using is_problematic_flag [of dc t]
    by (cases "is_problematic_for_user dc t") (simp add: analyze_region_def dc ds)
  with is_problematic_flag [of d t] show ?thesis by blast
qed

theorem problem_flag_iff_warning_witness:
  "fst (is_problematic_for_user [(''red_low'', 30)] PROTANOPIA) \<and>
   snd (is_problematic_for_user [(''red_low'', 30)] PROTANOPIA) \<noteq> None \<and>
   (\<exists>r. analyze_region bgr2hsv (solid 1 1 (0, 0, 255)) PROTANOPIA = Inr r \<and>
        (is_problematic r \<longleftrightarrow> warning r \<noteq> None))"
proof -
  have "fst (is_problematic_for_user [(''red_low'', 30)] PROTANOPIA)"
    by (simp add: is_problematic_for_user_def)
  then show ?thesis
    using problem_flag_iff_warning
      [of "[(''red_low'', 30)]" PROTANOPIA bgr2hsv "solid 1 1 (0, 0, 255)"]
    by blast
qed

subsection \<open>Traffic lights\<close>

lemma float_div_gt_tenth: "10 < p \<Longrightarrow> 1 / 10 < float_div p 100"
  unfolding float_div_def by (rule to_double_gt_tenth) simp

lemma traffic_state_confidence:
  "0 \<le> confidence (traffic_state colors) \<and> confidence (traffic_state colors) \<le> 1 \<and>
   (confidence (traffic_state colors) = 0 \<longleftrightarrow> state (traffic_state colors) = ''unknown'') \<and>
   (state (traffic_state colors) \<in> {''red'', ''yellow'', ''green''} \<longrightarrow>
      1 / 10 < confidence (traffic_state colors))"
proof -
  define red where
    "red = float_add (dict_get colors ''red_low'' 0) (dict_get colors ''red_high'' 0)"
  define yellow where "yellow = dict_get colors ''yellow'' 0"
  define green where "green = dict_get colors ''green'' 0"
  note gt = float_div_gt_tenth [of red] float_div_gt_tenth [of yellow]
    float_div_gt_tenth [of green]
  show ?thesis
    unfolding traffic_state_def Let_def red_def [symmetric] yellow_def [symmetric]
      green_def [symmetric]
    using gt by (auto simp: min_def)
qed

text \<open>
  Claim C10. For every ROI \<open>analyze_traffic_light\<close> returns a result whose confidence
  lies between 0 and 1, is 0 exactly when the state is unknown, and is above 0.1 when the
  state is red, yellow or green.
\<close>

theorem traffic_light_confidence:
  "\<exists>r. analyze_traffic_light cvt roi = Inr r \<and>
     0 \<le> confidence r \<and> confidence r \<le> 1 \<and>
     (confidence r = 0 \<longleftrightarrow> state r = ''unknown'') \<and>
     (state r \<in> {''red'', ''yellow'', ''green''} \<longrightarrow> 1 / 10 < confidence r)"
proof (cases "roi_size roi = 0")
  case True
  then show ?thesis by (simp add: analyze_traffic_light_def)
next
  case False
  obtain dc where dc: "detect_colors cvt roi = Inr dc"
    using detect_colors_total by blast
  have "analyze_traffic_light cvt roi = Inr (traffic_state dc)"
    using False by (simp add: analyze_traffic_light_def dc)
  then show ?thesis using traffic_state_confidence [of dc] by blast
qed

lemma red_pixel_light:
  "analyze_traffic_light bgr2hsv (solid 1 1 (0, 0, 255)) = Inr \<lparr>state = ''red'', confidence = 1\<rparr>"
  by code_simp

theorem traffic_light_confidence_witness:
  "analyze_traffic_light bgr2hsv (solid 1 1 (0, 0, 255)) =
     Inr \<lparr>state = ''red'', confidence = 1\<rparr> \<and>
   (\<exists>r. analyze_traffic_light bgr2hsv (solid 1 1 (0, 0, 255)) = Inr r \<and>
     0 \<le> confidence r \<and> confidence r \<le> 1 \<and>
     (confidence r = 0 \<longleftrightarrow> state r = ''unknown'') \<and>
     (state r \<in> {''red'', ''yellow'', ''green''} \<longrightarrow> 1 / 10 < confidence r))"
  using red_pixel_light traffic_light_confidence [of bgr2hsv "solid 1 1 (0, 0, 255)"]
  by blast

text \<open>The sum of two rounded percentages is itself rounded: 14.3 + 28.6 is a double just
  above 42.9. In this ROI of seven pixels (one red, two of a red at the upper end of the
  hue circle, three green, one black) red therefore exceeds green, which is 42.9.\<close>

lemma v22_values:
  "5 < float_mul (to_double (1 / 7)) 100"
  "5 < float_mul (to_double (2 / 7)) 100"
  "5 < float_mul (to_double (3 / 7)) 100"
  "py_round1 (float_mul (to_double (1 / 7)) 100) = 4025092166962381 / 281474976710656"
  "py_round1 (float_mul (to_double (2 / 7)) 100) = 4025092166962381 / 140737488355328"
  "py_round1 (float_mul (to_double (3 / 7)) 100) = 6037638250443571 / 140737488355328"
  "float_mul (to_double 0) 100 = 0"
  by code_simp+

lemma five_not_neg: "((5::rat) < 0) = False"
  by simp

lemma v22_state:
  "(let red_pct = float_add (4025092166962381 / 281474976710656)
                    (4025092166962381 / 140737488355328);
        yellow_pct = 0;
        green_pct = 6037638250443571 / 140737488355328
    in if red_pct > yellow_pct \<and> red_pct > green_pct \<and> red_pct > 10
       then \<lparr>state = ''red'', confidence = min (float_div red_pct 100) 1\<rparr>
       else if yellow_pct > red_pct \<and> yellow_pct > green_pct \<and> yellow_pct > 10
       then \<lparr>state = ''yellow'', confidence = min (float_div yellow_pct 100) 1\<rparr>
       else if green_pct > red_pct \<and> green_pct > yellow_pct \<and> green_pct > 10
       then \<lparr>state = ''green'', confidence = min (float_div green_pct 100) 1\<rparr>
       else \<lparr>state = ''unknown'', confidence = 0\<rparr>) =
   \<lparr>state = ''red'', confidence = 1932044240141943 / 4503599627370496\<rparr>"
  by code_simp

lemma traffic_v22:
  "analyze_traffic_light bgr2hsv
     (column [(0, 0, 255), (3, 0, 180), (3, 0, 180), (0, 255, 0), (0, 255, 0), (0, 255, 0),
              (0, 0, 0)]) =
   Inr \<lparr>state = ''red'', confidence = 1932044240141943 / 4503599627370496\<rparr>"
proof -
  let ?ps = "[(0, 0, 255), (3, 0, 180), (3, 0, 180), (0, 255, 0), (0, 255, 0), (0, 255, 0),
              (0, 0, 0)] :: pixel list"
  let ?hsv = "(column ?ps)\<lparr>pixel_at := (\<lambda>i j. bgr2hsv (pixel_at (column ?ps) i j))\<rparr>"
  let ?d = "map (\<lambda>(n, l, u). (n, py_round1 (band_percentage ?hsv l u)))
              (filter (\<lambda>(n, l, u). 5 < band_percentage ?hsv l u) COLOR_RANGES)"
  have size: "roi_size (column ?ps) \<noteq> 0" by (simp add: roi_size_def column_def)
  have d: "detect_colors bgr2hsv (column ?ps) = Inr ?d"
    using size by (rule detect_colors_eq)
  have pct:
    "band_percentage ?hsv (0, 100, 100) (10, 255, 255) = float_mul (to_double (1 / 7)) 100"
    "band_percentage ?hsv (160, 100, 100) (180, 255, 255) = float_mul (to_double (2 / 7)) 100"
    "band_percentage ?hsv (25, 100, 100) (35, 255, 255) = float_mul (to_double 0) 100"
    "band_percentage ?hsv (35, 100, 100) (85, 255, 255) = float_mul (to_double (3 / 7)) 100"
    by (simp_all add: band_percentage_column np_uint8_def in_bounds_def bgr2hsv_red
        bgr2hsv_wrap bgr2hsv_green bgr2hsv_black)
  have mem:
    "(''red_low'', (0, 100, 100), (10, 255, 255)) \<in> set COLOR_RANGES"
    "(''red_high'', (160, 100, 100), (180, 255, 255)) \<in> set COLOR_RANGES"
    "(''yellow'', (25, 100, 100), (35, 255, 255)) \<in> set COLOR_RANGES"
    "(''green'', (35, 100, 100), (85, 255, 255)) \<in> set COLOR_RANGES"
    by (simp_all add: COLOR_RANGES_def)
  have get:
    "dict_get ?d ''red_low'' 0 = 4025092166962381 / 281474976710656"
    "dict_get ?d ''red_high'' 0 = 4025092166962381 / 140737488355328"
    "dict_get ?d ''yellow'' 0 = 0"
    "dict_get ?d ''green'' 0 = 6037638250443571 / 140737488355328"
    by (simp_all only: dict_get_map_filter [OF distinct_COLOR_RANGES mem(1)]
        dict_get_map_filter [OF distinct_COLOR_RANGES mem(2)]
        dict_get_map_filter [OF distinct_COLOR_RANGES mem(3)]
        dict_get_map_filter [OF distinct_COLOR_RANGES mem(4)]
        pct v22_values if_True if_False five_not_neg)
  have "traffic_state ?d =
      \<lparr>state = ''red'', confidence = 1932044240141943 / 4503599627370496\<rparr>"
    unfolding traffic_state_def get by (rule v22_state)
  then show ?thesis
    using size by (simp only: analyze_traffic_light_def d sum.case if_False)
qed

text \<open>
  Claim C2. For every non-empty ROI \<open>analyze_traffic_light\<close> returns a result computed
  from the dictionary of \<open>detect_colors\<close>: red is the floating-point sum of the entries
  of \<open>red_low\<close> and \<open>red_high\<close>, yellow and green are read directly, an absent entry
  counting as 0. The state is red, yellow or green exactly when that percentage is
  strictly greater than both others and strictly greater than 10, and the confidence is
  then the smaller of the percentage divided by 100 (a floating-point division) and 1. In
  every other case, ties at the maximum included, the state is unknown and the confidence
  0.
\<close>

theorem traffic_light_rule:
  assumes "roi_size roi \<noteq> 0"
  shows "\<exists>colors r. detect_colors cvt roi = Inr colors \<and> analyze_traffic_light cvt roi = Inr r \<and>
     (let red = float_add (dict_get colors ''red_low'' 0) (dict_get colors ''red_high'' 0);
          yellow = dict_get colors ''yellow'' 0;
          green = dict_get colors ''green'' 0
      in (state r = ''red'' \<longleftrightarrow> yellow < red \<and> green < red \<and> 10 < red) \<and>
         (state r = ''yellow'' \<longleftrightarrow> red < yellow \<and> green < yellow \<and> 10 < yellow) \<and>
         (state r = ''green'' \<longleftrightarrow> red < green \<and> yellow < green \<and> 10 < green) \<and>
         (state r = ''unknown'' \<longleftrightarrow>
            \<not> (yellow < red \<and> green < red \<and> 10 < red) \<and>
            \<not> (red < yellow \<and> green < yellow \<and> 10 < yellow) \<and>
            \<not> (red < green \<and> yellow < green \<and> 10 < green)) \<and>
         confidence r =
           (if state r = ''red'' then min (float_div red 100) 1
            else if state r = ''yellow'' then min (float_div yellow 100) 1
            else if state r = ''green'' then min (float_div green 100) 1
            else 0))"
proof -
  obtain dc where dc: "detect_colors cvt roi = Inr dc"
    using detect_colors_total by blast
  have r: "analyze_traffic_light cvt roi = Inr (traffic_state dc)"
    using assms by (simp add: analyze_traffic_light_def dc)
  show ?thesis
    unfolding dc r by (auto simp: traffic_state_def Let_def)
qed

theorem traffic_light_rule_witness:
  "roi_size (column [(0, 0, 255), (3, 0, 180), (3, 0, 180), (0, 255, 0), (0, 255, 0),
                     (0, 255, 0), (0, 0, 0)]) \<noteq> 0 \<and>
   analyze_traffic_light bgr2hsv
     (column [(0, 0, 255), (3, 0, 180), (3, 0, 180), (0, 255, 0), (0, 255, 0), (0, 255, 0),
              (0, 0, 0)]) =
     Inr \<lparr>state = ''red'', confidence = 1932044240141943 / 4503599627370496\<rparr> \<and>
   (\<exists>colors r.
      detect_colors bgr2hsv
        (column [(0, 0, 255), (3, 0, 180), (3, 0, 180), (0, 255, 0), (0, 255, 0),
                 (0, 255, 0), (0, 0, 0)]) = Inr colors \<and>
      analyze_traffic_light bgr2hsv
        (column [(0, 0, 255), (3, 0, 180), (3, 0, 180), (0, 255, 0), (0, 255, 0),
                 (0, 255, 0), (0, 0, 0)]) = Inr r \<and>
     (let red = float_add (dict_get colors ''red_low'' 0) (dict_get colors ''red_high'' 0);
          yellow = dict_get colors ''yellow'' 0;
          green = dict_get colors ''green'' 0
      in (state r = ''red'' \<longleftrightarrow> yellow < red \<and> green < red \<and> 10 < red) \<and>
         (state r = ''yellow'' \<longleftrightarrow> red < yellow \<and> green < yellow \<and> 10 < yellow) \<and>
         (state r = ''green'' \<longleftrightarrow> red < green \<and> yellow < green \<and> 10 < green) \<and>
         (state r = ''unknown'' \<longleftrightarrow>
            \<not> (yellow < red \<and> green < red \<and> 10 < red) \<and>
            \<not> (red < yellow \<and> green < yellow \<and> 10 < yellow) \<and>
            \<not> (red < green \<and> yellow < green \<and> 10 < green)) \<and>
         confidence r =
           (if state r = ''red'' then min (float_div red 100) 1
            else if state r = ''yellow'' then min (float_div yellow 100) 1
            else if state r = ''green'' then min (float_div green 100) 1
            else 0)))"
proof -
  have size: "roi_size (column [(0, 0, 255), (3, 0, 180), (3, 0, 180), (0, 255, 0),
      (0, 255, 0), (0, 255, 0), (0, 0, 0)]) \<noteq> 0"
    by (simp add: roi_size_def column_def)
  show ?thesis
    using size traffic_v22 traffic_light_rule [OF size, of bgr2hsv] by blast
qed

subsection \<open>The warning\<close>

lemma problematic_loop_eq:
  "problematic_loop problematic d acc =
     acc @ map (\<lambda>(k, p). (dict_get COLOR_DISPLAY_NAMES k k, p))
             (filter (\<lambda>(k, p). k \<in> set problematic \<and> 10 < p) d)"
proof (induction d arbitrary: acc)
  case Nil
  show ?case by simp
next
  case (Cons x d)
  obtain k p where x: "x = (k, p)" by (cases x) auto
  show ?case
    by (cases "k \<in> set problematic \<and> 10 < p") (simp_all add: x Cons.IH)
qed

text \<open>
  Claim C6. The list of problematic bands of the normal profile is empty, and for a
  profile with an empty list \<open>is_problematic_for_user\<close> returns \<open>(False, None)\<close>.
  For any other profile, take the entries of the dictionary, in its order, whose band is
  in the profile's list and whose percentage is strictly greater than 10. If there is none
  the result is \<open>(False, None)\<close>; otherwise the flag is on and the warning is
  \<open>Contains\<close>, the display names of the first two such entries joined by a comma and a
  space (of the only one, if there is just one), and \<open>- may be difficult to see\<close>.
\<close>

theorem is_problematic_for_user_rule:
  "PROBLEMATIC_COLORS NORMAL = [] \<and>
   (PROBLEMATIC_COLORS t = [] \<longrightarrow> is_problematic_for_user d t = (False, None)) \<and>
   (PROBLEMATIC_COLORS t \<noteq> [] \<longrightarrow>
      is_problematic_for_user d t =
        (case map (\<lambda>(k, p). dict_get COLOR_DISPLAY_NAMES k k)
                (filter (\<lambda>(k, p). k \<in> set (PROBLEMATIC_COLORS t) \<and> 10 < p) d) of
           [] \<Rightarrow> (False, None)
         | [a] \<Rightarrow> (True, Some (''Contains '' @ a @ '' - may be difficult to see''))
         | a # b # rest \<Rightarrow>
             (True, Some (''Contains '' @ a @ '', '' @ b @ '' - may be difficult to see''))))"
proof -
  let ?found = "filter (\<lambda>(k, p). k \<in> set (PROBLEMATIC_COLORS t) \<and> 10 < p) d"
  have names: "map fst (map (\<lambda>(k, p). (dict_get COLOR_DISPLAY_NAMES k k, p)) ?found) =
      map (\<lambda>(k, p). dict_get COLOR_DISPLAY_NAMES k k) ?found"
    by (simp add: comp_def case_prod_unfold)
  show ?thesis
    by (auto simp: is_problematic_for_user_def Let_def problematic_loop_eq take_map [symmetric]
        names [symmetric] simp del: map_map split: list.splits)
qed

theorem is_problematic_for_user_rule_witness:
  "PROBLEMATIC_COLORS NORMAL = [] \<and>
   is_problematic_for_user [(''red_low'', 30), (''green'', 20), (''blue'', 50)] NORMAL =
     (False, None) \<and>
   PROBLEMATIC_COLORS PROTANOPIA \<noteq> [] \<and>
   is_problematic_for_user
     [(''red_low'', 30), (''red_high'', 8), (''green'', 20), (''olive'', 12), (''blue'', 30)]
     PROTANOPIA =
     (True, Some ''Contains red, green - may be difficult to see'')"
proof -
  have normal: "PROBLEMATIC_COLORS NORMAL = []" by simp
  have prot: "PROBLEMATIC_COLORS PROTANOPIA \<noteq> []" by simp
  have "is_problematic_for_user [(''red_low'', 30), (''green'', 20), (''blue'', 50)] NORMAL =
      (False, None)"
    using is_problematic_for_user_rule
      [of NORMAL "[(''red_low'', 30), (''green'', 20), (''blue'', 50)]"] normal
    by blast
  moreover have "is_problematic_for_user
     [(''red_low'', 30), (''red_high'', 8), (''green'', 20), (''olive'', 12), (''blue'', 30)]
     PROTANOPIA = (True, Some ''Contains red, green - may be difficult to see'')"
    using is_problematic_for_user_rule
      [of PROTANOPIA
        "[(''red_low'', 30), (''red_high'', 8), (''green'', 20), (''olive'', 12), (''blue'', 30)]"]
    by (simp add: COLOR_DISPLAY_NAMES_def)
  ultimately show ?thesis using normal prot by blast
qed

subsection \<open>Dominant colours\<close>

text \<open>What \<open>get_dominant_colors\<close> computes: the first \<open>max top_n 1\<close> display names, in
  the order of the stable descending sort, each name kept at its first occurrence. For
  \<open>top_n\<close> of at least 1 this is the specification's list, at most \<open>top_n\<close> long; the
  names are pairwise different for every \<open>top_n\<close>.\<close>

lemma set_first_occurrences: "set (first_occurrences xs) = set xs"
  by (induction xs rule: first_occurrences.induct) auto

lemma distinct_first_occurrences: "distinct (first_occurrences xs)"
  by (induction xs rule: first_occurrences.induct) (auto simp: set_first_occurrences)

lemma dominant_loop_eq:
  "seen = set dominant \<Longrightarrow> int (length dominant) < max top_n 1 \<Longrightarrow>
   dominant_loop top_n xs seen dominant =
     take (nat (max top_n 1))
       (dominant @ first_occurrences
          (filter (\<lambda>y. y \<notin> seen)
             (map (\<lambda>(name, pct). dict_get COLOR_DISPLAY_NAMES name name) xs)))"
proof (induction xs arbitrary: seen dominant)
  case Nil
  then show ?case by simp
next
  case (Cons x xs)
  obtain name pct where x: "x = (name, pct)" by (cases x) auto
  define dn where "dn = dict_get COLOR_DISPLAY_NAMES name name"
  show ?case
  proof (cases "dn \<in> seen")
    case True
    with Cons.prems have "dominant \<noteq> []" by auto
    then have "\<not> top_n \<le> int (length dominant)"
      using Cons.prems(2) by (cases dominant) auto
    with True Cons.IH [OF Cons.prems] show ?thesis
      by (simp add: x dn_def [symmetric])
  next
    case False
    let ?rest = "map (\<lambda>(name, pct). dict_get COLOR_DISPLAY_NAMES name name) xs"
    have filt: "filter (\<lambda>y. y \<noteq> dn) (filter (\<lambda>y. y \<notin> seen) ?rest) =
        filter (\<lambda>y. y \<notin> insert dn seen) ?rest"
      by (simp add: conj_commute)
    show ?thesis
    proof (cases "top_n \<le> int (length (dominant @ [dn]))")
      case True
      with Cons.prems(2) have "nat (max top_n 1) = Suc (length dominant)" by auto
      with True False show ?thesis
        by (simp add: x dn_def [symmetric])
    next
      case stop: False
      then have "int (length (dominant @ [dn])) < max top_n 1" by auto
      moreover have "insert dn seen = set (dominant @ [dn])"
        using Cons.prems(1) by simp
      ultimately have IH: "dominant_loop top_n xs (insert dn seen) (dominant @ [dn]) =
          take (nat (max top_n 1)) ((dominant @ [dn]) @
            first_occurrences (filter (\<lambda>y. y \<notin> insert dn seen) ?rest))"
        by (rule Cons.IH [rotated])
      have step: "dominant_loop top_n (x # xs) seen dominant =
          dominant_loop top_n xs (insert dn seen) (dominant @ [dn])"
        using stop False by (simp add: x dn_def [symmetric])
      have "filter (\<lambda>y. y \<notin> seen)
              (map (\<lambda>(name, pct). dict_get COLOR_DISPLAY_NAMES name name) (x # xs)) =
            dn # filter (\<lambda>y. y \<notin> seen) ?rest"
        using False by (simp add: x dn_def [symmetric])
      then have rhs: "first_occurrences (filter (\<lambda>y. y \<notin> seen)
              (map (\<lambda>(name, pct). dict_get COLOR_DISPLAY_NAMES name name) (x # xs))) =
            dn # first_occurrences (filter (\<lambda>y. y \<notin> insert dn seen) ?rest)"
        by (simp only: first_occurrences.simps filt)
      show ?thesis
        unfolding step IH rhs by simp
    qed
  qed
qed

lemma get_dominant_colors_eq:
  "detect_colors cvt roi = Inr d \<Longrightarrow>
   get_dominant_colors cvt roi top_n =
     Inr (take (nat (max top_n 1))
            (first_occurrences
               (map (\<lambda>(name, pct). dict_get COLOR_DISPLAY_NAMES name name)
                  (sorted_reverse snd d))))"
  by (simp add: get_dominant_colors_def dominant_loop_eq)

lemma get_dominant_colors_refines:
  "1 \<le> top_n \<Longrightarrow> detect_colors cvt roi = Inr d \<Longrightarrow>
   get_dominant_colors cvt roi top_n = Inr (dominantColors_spec d top_n)"
  by (simp add: get_dominant_colors_eq dominantColors_spec_def max_def)

lemma get_dominant_colors_distinct:
  "get_dominant_colors cvt roi top_n = Inr ds \<Longrightarrow> distinct ds"
  using detect_colors_total [of cvt roi]
  by (auto simp: get_dominant_colors_eq distinct_first_occurrences)

lemma get_dominant_colors_length:
  "1 \<le> top_n \<Longrightarrow> get_dominant_colors cvt roi top_n = Inr ds \<Longrightarrow> int (length ds) \<le> top_n"
  using detect_colors_total [of cvt roi]
  by (auto simp: get_dominant_colors_eq)

lemma sorted_reverse_descending:
  "sorted_wrt (\<lambda>a b. key b \<le> key a) (sorted_reverse key xs)"
proof -
  have "sorted (map (\<lambda>x. - key x) (sorted_reverse key xs))"
    unfolding sorted_reverse_def by (rule sorted_sort_key)
  then show ?thesis by (simp add: sorted_map)
qed

lemma sorted_reverse_stable:
  "filter (\<lambda>x. key x = p) (sorted_reverse key xs) = filter (\<lambda>x. key x = p) xs"
  using sort_key_stable [of "\<lambda>x. - key x" "- p" xs] by (simp add: sorted_reverse_def)

lemma sorted_reverse_set: "set (sorted_reverse key xs) = set xs"
  by (simp add: sorted_reverse_def)

text \<open>
  Claim C3. The claim bounds the length of the result by \<open>top_n\<close> for every \<open>top_n\<close>.
  The loop compares the length with \<open>top_n\<close> only after it has appended a name, so with
  \<open>top_n = 0\<close> a ROI of one black pixel yields the list with the one name \<open>black\<close>,
  longer than \<open>top_n\<close>.
\<close>

theorem top_n_zero_returns_one_colour:
  "get_dominant_colors bgr2hsv (solid 1 1 (0, 0, 0)) 0 = Inr [''black''] \<and>
   \<not> int (length [''black'']) \<le> 0"
proof -
  have "get_dominant_colors bgr2hsv (solid 1 1 (0, 0, 0)) 0 = Inr [''black'']"
    by code_simp
  then show ?thesis by simp
qed

text \<open>
  Claim C5. The claim has the names collected until \<open>top_n\<close> of them are found. For
  \<open>top_n = 0\<close> the specification's list is empty, while the loop has appended the first
  name before it compares: a ROI of one white pixel yields the list with the name
  \<open>white\<close>. The order, the tie-break and the first-occurrence rule are as claimed
  (\<open>get_dominant_colors_eq\<close>, \<open>sorted_reverse_descending\<close>, \<open>sorted_reverse_stable\<close>).
\<close>

theorem top_n_zero_differs_from_spec:
  "detect_colors bgr2hsv (solid 1 1 (255, 255, 255)) = Inr [(''white'', 100)] \<and>
   get_dominant_colors bgr2hsv (solid 1 1 (255, 255, 255)) 0 = Inr [''white''] \<and>
   dominantColors_spec [(''white'', 100)] 0 = []"
proof -
  have "detect_colors bgr2hsv (solid 1 1 (255, 255, 255)) = Inr [(''white'', 100)]"
    by code_simp
  moreover have "get_dominant_colors bgr2hsv (solid 1 1 (255, 255, 255)) 0 = Inr [''white'']"
    by code_simp
  moreover have "dominantColors_spec [(''white'', 100)] 0 = []"
    by (simp add: dominantColors_spec_def)
  ultimately show ?thesis by blast
qed

end
